theory Spec2Isabelle
  imports Complex_Main
begin

section \<open>Errors\<close>

text \<open>
  The Python exceptions the modelled code can raise. A function that may raise returns
  \<open>error + 'a\<close>, with \<open>Inl\<close> carrying the exception.
\<close>

datatype error =
    ValueError string
  | KeyError string
  | IndexError
  | AttributeError string
  | RuntimeError string

section \<open>String helpers of the Python runtime\<close>

text \<open>
  \<open>str.split(sep)\<close> for a one-character separator: every occurrence of the separator
  cuts, and the result always has at least one component (so the last case below never
  applies).
\<close>

fun split :: "char \<Rightarrow> string \<Rightarrow> string list" where
  "split sep [] = [[]]"
| "split sep (c # cs) =
     (if c = sep then [] # split sep cs
      else (case split sep cs of
              p # ps \<Rightarrow> (c # p) # ps
            | [] \<Rightarrow> [[c]]))"

definition startswith :: "string \<Rightarrow> string \<Rightarrow> bool" where
  "startswith s p = (take (length p) s = p)"

definition endswith :: "string \<Rightarrow> string \<Rightarrow> bool" where
  "endswith s p = (length p \<le> length s \<and> drop (length s - length p) s = p)"

text \<open>\<open>any([...])\<close> over a list of booleans.\<close>

fun any :: "bool list \<Rightarrow> bool" where
  "any [] = False"
| "any (b # bs) = (b \<or> any bs)"

section \<open>The role-transition predicate\<close>

text \<open>The tuple of roles that both membership tests of the source use.\<close>

definition valid_tags :: "string list" where
  "valid_tags = [''O'', ''B'', ''I_'', ''I~'', ''o'', ''b'', ''i_'', ''i~'', ''START'', ''END'']"

definition is_streusle_transition_allowed :: "string \<Rightarrow> string \<Rightarrow> error + bool" where
  "is_streusle_transition_allowed from_tag to_tag =
     (if from_tag \<notin> set valid_tags then
        Inl (ValueError (''Got invalid from_tag '' @ from_tag))
      else if to_tag \<notin> set valid_tags then
        Inl (ValueError (''Got invalid to_tag '' @ to_tag))
      else if to_tag = ''START'' \<or> from_tag = ''END'' then Inr False
      else if from_tag = ''START'' then Inr (to_tag \<in> set [''O'', ''B''])
      else if to_tag = ''END'' then Inr (from_tag \<in> set [''O'', ''I_'', ''I~''])
      else Inr (any [
        from_tag \<in> set [''B'', ''o''] \<and> to_tag \<in> set [''o'', ''b'', ''I_'', ''I~''],
        from_tag \<in> set [''b''] \<and> to_tag \<in> set [''i_'', ''i~''],
        from_tag \<in> set [''O''] \<and> to_tag \<in> set [''O'', ''B''],
        from_tag \<in> set [''I_'', ''I~''] \<and> to_tag \<notin> set [''i_'', ''i~''],
        from_tag \<in> set [''i_'', ''i~''] \<and> to_tag \<notin> set [''O'', ''B'']]))"

text \<open>
  The grammar as the specification words it, for roles of the closed set: nothing enters
  \<open>START\<close> or leaves \<open>END\<close>; \<open>START\<close> goes to \<open>O\<close> or \<open>B\<close>; \<open>END\<close> is reached from
  \<open>O\<close>, \<open>I_\<close> or \<open>I~\<close>; otherwise one of five disjuncts decides.
\<close>

definition spec_transition :: "string \<Rightarrow> string \<Rightarrow> bool" where
  "spec_transition from_role to_role =
     (if to_role = ''START'' \<or> from_role = ''END'' then False
      else if from_role = ''START'' then to_role \<in> {''O'', ''B''}
      else if to_role = ''END'' then from_role \<in> {''O'', ''I_'', ''I~''}
      else (from_role \<in> {''B'', ''o''} \<and> to_role \<in> {''o'', ''b'', ''I_'', ''I~''})
         \<or> (from_role = ''b'' \<and> to_role \<in> {''i_'', ''i~''})
         \<or> (from_role = ''O'' \<and> to_role \<in> {''O'', ''B''})
         \<or> (from_role \<in> {''I_'', ''I~''} \<and> to_role \<notin> {''i_'', ''i~''})
         \<or> (from_role \<in> {''i_'', ''i~''} \<and> to_role \<notin> {''O'', ''B''}))"

text \<open>
  The exchange of the underscore and the tilde variant of a role: \<open>I_\<close> with \<open>I~\<close>,
  \<open>i_\<close> with \<open>i~\<close>, every other string fixed.
\<close>

definition swap_variant :: "string \<Rightarrow> string" where
  "swap_variant r =
     (if r = ''I_'' then ''I~'' else if r = ''I~'' then ''I_''
      else if r = ''i_'' then ''i~'' else if r = ''i~'' then ''i_''
      else r)"

text \<open>The eight roles a label can carry (the closed set without the two boundary markers).\<close>

definition label_roles :: "string list" where
  "label_roles = [''O'', ''o'', ''B'', ''b'', ''I_'', ''i_'', ''I~'', ''i~'']"

text \<open>
  A role sequence is valid when the predicate returns \<open>True\<close> on every consecutive pair.
\<close>

fun valid_sequence :: "string list \<Rightarrow> bool" where
  "valid_sequence (a # b # rest) =
     (is_streusle_transition_allowed a b = Inr True \<and> valid_sequence (b # rest))"
| "valid_sequence _ = True"

section \<open>The transition set\<close>

text \<open>
  \<open>labels\<close> is a Python dict from label index to label string; the code walks
  \<open>list(labels.items())\<close>, so the model is the list of its items in that order. The role of
  a label is computed inline in both loops of the source: the markers \<open>START\<close> and \<open>END\<close>
  stand for themselves, any other label gives its first dash-delimited component.
\<close>

definition tag_of_label :: "string \<Rightarrow> string" where
  "tag_of_label label =
     (if label \<in> set [''START'', ''END''] then label else split (CHR ''-'') label ! 0)"

text \<open>The inner loop over the target labels; an exception of the predicate leaves the loop.\<close>

fun to_loop :: "int \<Rightarrow> string \<Rightarrow> (int \<times> string) list \<Rightarrow> (int \<times> int) list
    \<Rightarrow> error + (int \<times> int) list" where
  "to_loop from_label_index from_tag [] allowed = Inr allowed"
| "to_loop from_label_index from_tag ((to_label_index, to_label) # rest) allowed =
     (case is_streusle_transition_allowed from_tag (tag_of_label to_label) of
        Inl e \<Rightarrow> Inl e
      | Inr ok \<Rightarrow>
          to_loop from_label_index from_tag rest
            (if ok then allowed @ [(from_label_index, to_label_index)] else allowed))"

text \<open>The outer loop over the origin labels.\<close>

fun from_loop :: "(int \<times> string) list \<Rightarrow> (int \<times> string) list \<Rightarrow> (int \<times> int) list
    \<Rightarrow> error + (int \<times> int) list" where
  "from_loop [] labels_with_boundaries allowed = Inr allowed"
| "from_loop ((from_label_index, from_label) # rest) labels_with_boundaries allowed =
     (case to_loop from_label_index (tag_of_label from_label) labels_with_boundaries allowed of
        Inl e \<Rightarrow> Inl e
      | Inr allowed' \<Rightarrow> from_loop rest labels_with_boundaries allowed')"

definition streusle_allowed_transitions :: "(int \<times> string) list \<Rightarrow> error + (int \<times> int) list" where
  "streusle_allowed_transitions labels =
     (let num_labels = int (length labels);
          start_tag = num_labels;
          end_tag = num_labels + 1;
          labels_with_boundaries = labels @ [(start_tag, ''START''), (end_tag, ''END'')]
      in from_loop labels_with_boundaries labels_with_boundaries [])"

section \<open>The lexcat compatibility table\<close>

text \<open>
  The two fixed vocabularies. The source holds them as Python sets and only iterates over
  them to fill a dict of sets, so the lists below give their elements in the order of the
  source text.
\<close>

definition ALL_UPOS :: "string list" where
  "ALL_UPOS = [''X'', ''INTJ'', ''VERB'', ''ADV'', ''CCONJ'', ''PUNCT'', ''ADP'',
               ''NOUN'', ''SYM'', ''ADJ'', ''PROPN'', ''DET'', ''PART'', ''PRON'', ''SCONJ'',
               ''NUM'', ''AUX'']"

definition ALL_LEXCATS :: "string list" where
  "ALL_LEXCATS = [''N'', ''INTJ'', ''INF.P'', ''V'', ''AUX'', ''PP'', ''PUNCT'',
                  ''POSS'', ''X'', ''PRON.POSS'', ''SYM'', ''PRON'', ''SCONJ'',
                  ''NUM'', ''DISC'', ''ADV'', ''CCONJ'', ''P'', ''ADJ'', ''DET'', ''INF'']"

definition is_allowed :: "string \<Rightarrow> string \<Rightarrow> bool" where
  "is_allowed upos lexcat =
     (if endswith lexcat ''!@'' then True
      else if upos = lexcat then True
      else if (upos, lexcat) \<in> set [(''NOUN'', ''N''), (''PROPN'', ''N''), (''VERB'', ''V''),
                                     (''ADP'', ''P''), (''ADV'', ''P''), (''SCONJ'', ''P''),
                                     (''ADP'', ''DISC''), (''ADV'', ''DISC''), (''SCONJ'', ''DISC''),
                                     (''PART'', ''POSS'')] then True
      else
        (let mismatch_ok = False;
             mismatch_ok = (if startswith lexcat ''INF''
                            then (if upos = ''SCONJ'' then True else mismatch_ok)
                            else mismatch_ok);
             mismatch_ok = (if upos = ''PRON''
                            then (if lexcat \<in> set [''PRON'', ''PRON.POSS''] then True else mismatch_ok)
                            else mismatch_ok);
             mismatch_ok = (if lexcat = ''ADV''
                            then (if upos \<in> set [''ADV'', ''PART''] then True else mismatch_ok)
                            else mismatch_ok)
         in mismatch_ok))"

text \<open>The conditions of the specification, one disjunct for each.\<close>

definition spec_is_allowed :: "string \<Rightarrow> string \<Rightarrow> bool" where
  "spec_is_allowed upos lexcat =
     (endswith lexcat ''!@''
      \<or> upos = lexcat
      \<or> (upos, lexcat) \<in> {(''NOUN'', ''N''), (''PROPN'', ''N''), (''VERB'', ''V''),
                          (''ADP'', ''P''), (''ADV'', ''P''), (''SCONJ'', ''P''),
                          (''ADP'', ''DISC''), (''ADV'', ''DISC''), (''SCONJ'', ''DISC''),
                          (''PART'', ''POSS'')}
      \<or> (startswith lexcat ''INF'' \<and> upos = ''SCONJ'')
      \<or> (upos = ''PRON'' \<and> lexcat \<in> {''PRON'', ''PRON.POSS''})
      \<or> (lexcat = ''ADV'' \<and> upos \<in> {''ADV'', ''PART''}))"

text \<open>
  The body of the double loop of \<open>get_upos_allowed_lexcats\<close>: a missing key first gets the
  empty set, then the lexcat is added to the set stored under the key.
\<close>

definition add_combination :: "string \<Rightarrow> string \<Rightarrow> (string \<rightharpoonup> string set) \<Rightarrow> (string \<rightharpoonup> string set)" where
  "add_combination lexcat universal_pos allowed_combinations =
     (if is_allowed universal_pos lexcat then
        (let with_key = (if allowed_combinations universal_pos = None
                         then allowed_combinations(universal_pos \<mapsto> {})
                         else allowed_combinations)
         in case with_key universal_pos of
              Some lexcats \<Rightarrow> with_key(universal_pos \<mapsto> insert lexcat lexcats)
            | None \<Rightarrow> with_key)
      else allowed_combinations)"

definition get_upos_allowed_lexcats :: "string \<rightharpoonup> string set" where
  "get_upos_allowed_lexcats =
     fold (\<lambda>lexcat allowed_combinations.
             fold (add_combination lexcat) ALL_UPOS allowed_combinations)
          ALL_LEXCATS Map.empty"

section \<open>The per-UPOS label masks\<close>

text \<open>
  The label dict the constructor works on is
  \<open>vocab.get_index_to_token_vocabulary(label_namespace)\<close>. The vocabulary class belongs to
  the AllenNLP library, not to this repository; it numbers the tokens of a namespace
  consecutively from 0, so the model of a vocabulary namespace is the list of its tokens
  and the dict pairs each token with its position.
\<close>

definition get_index_to_token_vocabulary :: "string list \<Rightarrow> (int \<times> string) list" where
  "get_index_to_token_vocabulary vocab = zip (map int [0..<length vocab]) vocab"

text \<open>
  Writing one entry of a one-dimensional tensor, \<open>t[i] = v\<close>: a negative index counts from
  the end, an index outside the tensor raises.
\<close>

definition tensor_set :: "real list \<Rightarrow> int \<Rightarrow> real \<Rightarrow> error + real list" where
  "tensor_set t i v =
     (let n = int (length t) in
      if 0 \<le> i \<and> i < n then Inr (t[nat i := v])
      else if - n \<le> i \<and> i < 0 then Inr (t[nat (n + i) := v])
      else Inl IndexError)"

text \<open>
  The loop over \<open>labels.items()\<close> that fills the mask of one UPOS tag. The allowed-lexcat
  dict is only read in the last branch, where a missing key raises.
\<close>

fun label_loop :: "(string \<rightharpoonup> string set) \<Rightarrow> string \<Rightarrow> (int \<times> string) list \<Rightarrow> real list
    \<Rightarrow> error + real list" where
  "label_loop upos_to_allowed_lexcats upos [] upos_label_mask = Inr upos_label_mask"
| "label_loop upos_to_allowed_lexcats upos ((label_index, label) # rest) upos_label_mask =
     (if length (split (CHR ''-'') label) = 1 then
        (case tensor_set upos_label_mask label_index 1 of
           Inl e \<Rightarrow> Inl e
         | Inr m \<Rightarrow> label_loop upos_to_allowed_lexcats upos rest m)
      else
        (let label_lexcat = split (CHR ''-'') label ! 1 in
         if \<not> startswith label ''O-'' \<and> \<not> startswith label ''o-'' then
           (case tensor_set upos_label_mask label_index 1 of
              Inl e \<Rightarrow> Inl e
            | Inr m \<Rightarrow> label_loop upos_to_allowed_lexcats upos rest m)
         else
           (case upos_to_allowed_lexcats upos of
              None \<Rightarrow> Inl (KeyError upos)
            | Some lexcats \<Rightarrow>
                if label_lexcat \<in> lexcats then
                  (case tensor_set upos_label_mask label_index 1 of
                     Inl e \<Rightarrow> Inl e
                   | Inr m \<Rightarrow> label_loop upos_to_allowed_lexcats upos rest m)
                else label_loop upos_to_allowed_lexcats upos rest upos_label_mask)))"

text \<open>The mask of one UPOS tag: \<open>torch.zeros(len(labels))\<close>, then the loop.\<close>

definition upos_label_mask :: "(string \<rightharpoonup> string set) \<Rightarrow> (int \<times> string) list \<Rightarrow> string
    \<Rightarrow> error + real list" where
  "upos_label_mask upos_to_allowed_lexcats labels upos =
     label_loop upos_to_allowed_lexcats upos labels (replicate (length labels) 0)"

text \<open>The loop \<open>for upos in ALL_UPOS\<close> that fills \<open>_upos_to_label_mask\<close>.\<close>

fun upos_loop :: "(string \<rightharpoonup> string set) \<Rightarrow> (int \<times> string) list \<Rightarrow> string list
    \<Rightarrow> (string \<rightharpoonup> real list) \<Rightarrow> error + (string \<rightharpoonup> real list)" where
  "upos_loop upos_to_allowed_lexcats labels [] upos_to_label_mask = Inr upos_to_label_mask"
| "upos_loop upos_to_allowed_lexcats labels (upos # rest) upos_to_label_mask =
     (case upos_label_mask upos_to_allowed_lexcats labels upos of
        Inl e \<Rightarrow> Inl e
      | Inr m \<Rightarrow> upos_loop upos_to_allowed_lexcats labels rest (upos_to_label_mask(upos \<mapsto> m)))"

text \<open>
  The admissibility rule as the specification words it: a label is admissible under a
  UPOS tag when it has no lexcat component, or does not start with \<open>O-\<close> or \<open>o-\<close>, or
  has its lexcat (the second dash-delimited component) in the set the compatibility
  table holds for the tag.
\<close>

definition spec_admissible :: "(string \<rightharpoonup> string set) \<Rightarrow> string \<Rightarrow> string \<Rightarrow> bool" where
  "spec_admissible table upos label =
     (let parts = split (CHR ''-'') label in
      length parts = 1
      \<or> \<not> (startswith label ''O-'' \<or> startswith label ''o-'')
      \<or> (1 < length parts
          \<and> (case table upos of None \<Rightarrow> False | Some lexcats \<Rightarrow> parts ! 1 \<in> lexcats)))"

section \<open>The tagger\<close>

text \<open>
  The attributes of a \<open>StreusleTagger\<close> object that the constraint code reads. An attribute
  that the constructor may leave unassigned is optional, \<open>None\<close> standing for an attribute
  the object does not have. The constructor assigns \<open>_upos_to_allowed_lexcats\<close> and
  \<open>_upos_to_label_mask\<close> only under \<open>use_upos_constraints\<close>, and it has no assignment to
  \<open>use_lemma_constraints\<close> at all.
\<close>

record streusle_tagger =
  num_tags :: nat
  constraints :: "(int \<times> int) list"
  use_upos_constraints :: bool
  upos_to_allowed_lexcats :: "(string \<rightharpoonup> string set) option"
  upos_to_label_mask :: "(string \<rightharpoonup> real list) option"
  use_lemma_constraints :: "bool option"

text \<open>
  The constructor, as far as it builds the constraint tables. \<open>num_tags\<close> is the size of
  the label namespace of the vocabulary.
\<close>

definition init :: "string list \<Rightarrow> bool \<Rightarrow> error + streusle_tagger" where
  "init vocab use_upos =
     (let labels = get_index_to_token_vocabulary vocab in
      case streusle_allowed_transitions labels of
        Inl e \<Rightarrow> Inl e
      | Inr cs \<Rightarrow>
          if use_upos then
            (case upos_loop get_upos_allowed_lexcats labels ALL_UPOS Map.empty of
               Inl e \<Rightarrow> Inl e
             | Inr masks \<Rightarrow>
                 Inr \<lparr>num_tags = length vocab, constraints = cs,
                      use_upos_constraints = use_upos,
                      upos_to_allowed_lexcats = Some get_upos_allowed_lexcats,
                      upos_to_label_mask = Some masks,
                      use_lemma_constraints = None\<rparr>)
          else
            Inr \<lparr>num_tags = length vocab, constraints = cs,
                 use_upos_constraints = use_upos,
                 upos_to_allowed_lexcats = None,
                 upos_to_label_mask = None,
                 use_lemma_constraints = None\<rparr>)"

section \<open>The per-token mask of a batch\<close>

text \<open>
  \<open>max(batch_upos_tags, key=len)\<close>: the first list of greatest length; the caller has
  excluded the empty batch, on which Python raises.
\<close>

fun max_by_len :: "'a list \<Rightarrow> 'a list list \<Rightarrow> 'a list" where
  "max_by_len best [] = best"
| "max_by_len best (x # xs) = max_by_len (if length best < length x then x else best) xs"

text \<open>
  The loop target \<open>(timestep_upos_tag, timestep_lemma)\<close> unpacks the item that
  \<open>enumerate(example_upos_tags)\<close> yields, which is one UPOS string: a string unpacks into
  its characters, and only a string of exactly two characters fits the two names.
\<close>

fun unpack_pair :: "string \<Rightarrow> error + (string \<times> string)" where
  "unpack_pair [] = Inl (ValueError ''not enough values to unpack (expected 2, got 0)'')"
| "unpack_pair [a] = Inl (ValueError ''not enough values to unpack (expected 2, got 1)'')"
| "unpack_pair [a, b] = Inr ([a], [b])"
| "unpack_pair (a # b # c # rest) = Inl (ValueError ''too many values to unpack (expected 2)'')"

text \<open>
  Assigning a one-dimensional tensor to a row of \<open>row_len\<close> entries: the sizes must agree,
  except that a tensor of one entry is broadcast.
\<close>

definition assign_row :: "nat \<Rightarrow> real list \<Rightarrow> error + real list" where
  "assign_row row_len v =
     (if length v = row_len then Inr v
      else if length v = 1 then Inr (replicate row_len (v ! 0))
      else Inl (RuntimeError ''shape mismatch''))"

text \<open>The loop over the time steps of one example; it writes into the example's rows.\<close>

fun timestep_loop :: "streusle_tagger \<Rightarrow> nat \<Rightarrow> string list \<Rightarrow> real list list
    \<Rightarrow> error + real list list" where
  "timestep_loop self timestep_index [] example_constraint_mask = Inr example_constraint_mask"
| "timestep_loop self timestep_index (item # rest) example_constraint_mask =
     (case unpack_pair item of
        Inl e \<Rightarrow> Inl e
      | Inr (timestep_upos_tag, timestep_lemma) \<Rightarrow>
          (case upos_to_label_mask self of
             None \<Rightarrow> Inl (AttributeError ''_upos_to_label_mask'')
           | Some masks \<Rightarrow>
               (case masks timestep_upos_tag of
                  None \<Rightarrow> Inl (KeyError timestep_upos_tag)
                | Some v \<Rightarrow>
                    if timestep_index < length example_constraint_mask then
                      (case assign_row (num_tags self) v of
                         Inl e \<Rightarrow> Inl e
                       | Inr row \<Rightarrow>
                           timestep_loop self (Suc timestep_index) rest
                             (example_constraint_mask[timestep_index := row]))
                    else Inl IndexError)))"

text \<open>The loop over the examples of the batch, \<open>zip\<close>ped with their lemma lists.\<close>

fun example_loop :: "streusle_tagger \<Rightarrow> nat \<Rightarrow> (string list \<times> string list) list
    \<Rightarrow> real list list list \<Rightarrow> error + real list list list" where
  "example_loop self example_index [] upos_constraint_mask = Inr upos_constraint_mask"
| "example_loop self example_index ((example_upos_tags, example_lemmas) # rest)
       upos_constraint_mask =
     (if example_index < length upos_constraint_mask then
        (case timestep_loop self 0 example_upos_tags (upos_constraint_mask ! example_index) of
           Inl e \<Rightarrow> Inl e
         | Inr example_constraint_mask \<Rightarrow>
             example_loop self (Suc example_index) rest
               (upos_constraint_mask[example_index := example_constraint_mask]))
      else Inl IndexError)"

text \<open>The sentinel \<open>-1e32\<close> that fills the fresh mask and replaces masked logits.\<close>

definition sentinel :: real where
  "sentinel = - (10 ^ 32)"

definition get_upos_constraint_mask :: "streusle_tagger \<Rightarrow> string list list \<Rightarrow> string list list
    \<Rightarrow> error + real list list list" where
  "get_upos_constraint_mask self batch_upos_tags batch_lemmas =
     (case batch_upos_tags of
        [] \<Rightarrow> Inl (ValueError ''max() arg is an empty sequence'')
      | first # others \<Rightarrow>
          (let upos_constraint_mask =
                 replicate (length batch_upos_tags)
                   (replicate (length (max_by_len first others))
                      (replicate (num_tags self) (1 * sentinel)))
           in example_loop self 0 (zip batch_upos_tags batch_lemmas) upos_constraint_mask))"

section \<open>The forward pass, from the logits to the decoder\<close>

text \<open>
  The per-example metadata dict with the three keys the forward pass reads; the key
  \<open>lemmas\<close> is the field \<open>token_lemmas\<close>.
\<close>

record metadata =
  tokens :: "string list"
  upos_tags :: "string list"
  token_lemmas :: "string list"

text \<open>
  The part of \<open>forward\<close> between the tag projection and the decoder. The logits come from
  the network and are an argument. \<open>replace_masked_values\<close> and the CRF's \<open>viterbi_tags\<close>
  belong to the AllenNLP library and are arguments too, the text-field mask (\<open>token_mask\<close>) being
  passed through to the decoder unread. The condition \<open>A and B\<close> reads \<open>B\<close> only when \<open>A\<close> is
  true, and reading an attribute the object does not have raises.
\<close>

definition forward ::
  "(real list list list \<Rightarrow> real list list list \<Rightarrow> real \<Rightarrow> real list list list)
    \<Rightarrow> (real list list list \<Rightarrow> 'm \<Rightarrow> (int list \<times> real) list)
    \<Rightarrow> streusle_tagger \<Rightarrow> real list list list \<Rightarrow> 'm \<Rightarrow> metadata list
    \<Rightarrow> error + (real list list list \<times> int list list)" where
  "forward replace_masked_values viterbi_tags self logits token_mask metadata =
     (case (if use_upos_constraints self then
              (case use_lemma_constraints self of
                 None \<Rightarrow> Inl (AttributeError ''use_lemma_constraints'')
               | Some b \<Rightarrow> Inr b)
            else Inr False) of
        Inl e \<Rightarrow> Inl e
      | Inr True \<Rightarrow>
          (let batch_upos_tags = map upos_tags metadata;
               batch_lemmas = map token_lemmas metadata
           in case get_upos_constraint_mask self batch_upos_tags batch_lemmas of
                Inl e \<Rightarrow> Inl e
              | Inr batch_upos_constraint_mask \<Rightarrow>
                  (let constrained_logits =
                         replace_masked_values logits batch_upos_constraint_mask sentinel;
                       best_paths = viterbi_tags constrained_logits token_mask
                   in Inr (constrained_logits, map fst best_paths)))
      | Inr False \<Rightarrow>
          (let constrained_logits = logits;
               best_paths = viterbi_tags constrained_logits token_mask
           in Inr (constrained_logits, map fst best_paths)))"

section \<open>Properties of the role-transition predicate\<close>

lemma transition_refines_spec:
  assumes "from_tag \<in> set valid_tags" and "to_tag \<in> set valid_tags"
  shows "is_streusle_transition_allowed from_tag to_tag = Inr (spec_transition from_tag to_tag)"
  using assms unfolding is_streusle_transition_allowed_def spec_transition_def
  by simp

text \<open>
  Claim C1. For every pair of roles of the closed set
  \<open>{O, o, B, b, I_, i_, I~, i~, START, END}\<close> the predicate returns (without raising)
  exactly what the grammar of the specification says. On the sequence
  \<open>START, O, B, o, i_\<close> the first three transitions are allowed and \<open>o \<rightarrow> i_\<close> is
  the first one that is not.
\<close>

theorem C1_transition_matches_grammar:
  "(\<forall>from_tag \<in> set valid_tags. \<forall>to_tag \<in> set valid_tags.
      is_streusle_transition_allowed from_tag to_tag = Inr (spec_transition from_tag to_tag))
   \<and> is_streusle_transition_allowed ''START'' ''O'' = Inr True
   \<and> is_streusle_transition_allowed ''O'' ''B'' = Inr True
   \<and> is_streusle_transition_allowed ''B'' ''o'' = Inr True
   \<and> is_streusle_transition_allowed ''o'' ''i_'' = Inr False"
proof -
  have "is_streusle_transition_allowed ''START'' ''O'' = Inr True"
    by (simp add: is_streusle_transition_allowed_def valid_tags_def)
  moreover have "is_streusle_transition_allowed ''O'' ''B'' = Inr True"
    by (simp add: is_streusle_transition_allowed_def valid_tags_def)
  moreover have "is_streusle_transition_allowed ''B'' ''o'' = Inr True"
    by (simp add: is_streusle_transition_allowed_def valid_tags_def)
  moreover have "is_streusle_transition_allowed ''o'' ''i_'' = Inr False"
    by (simp add: is_streusle_transition_allowed_def valid_tags_def)
  ultimately show ?thesis
    using transition_refines_spec by blast
qed

theorem C1_transition_matches_grammar_witness:
  "''b'' \<in> set valid_tags \<and> ''i~'' \<in> set valid_tags
   \<and> is_streusle_transition_allowed ''b'' ''i~'' = Inr (spec_transition ''b'' ''i~'')
   \<and> spec_transition ''b'' ''i~''"
proof -
  have m: "''b'' \<in> set valid_tags" "''i~'' \<in> set valid_tags"
    by (simp_all add: valid_tags_def)
  have "spec_transition ''b'' ''i~''"
    by (simp add: spec_transition_def)
  with m C1_transition_matches_grammar show ?thesis by blast
qed

text \<open>
  Claim C10. The predicate does not tell the underscore variant from the tilde variant:
  on roles of the closed set, exchanging \<open>I_\<close> with \<open>I~\<close> and \<open>i_\<close> with \<open>i~\<close> in both
  arguments leaves the result unchanged.
\<close>

theorem C10_variant_symmetry:
  "\<forall>a \<in> set valid_tags. \<forall>b \<in> set valid_tags.
     is_streusle_transition_allowed a b
       = is_streusle_transition_allowed (swap_variant a) (swap_variant b)"
  unfolding valid_tags_def
  by (simp add: is_streusle_transition_allowed_def valid_tags_def swap_variant_def)

theorem C10_variant_symmetry_witness:
  "''b'' \<in> set valid_tags \<and> ''i_'' \<in> set valid_tags
   \<and> is_streusle_transition_allowed ''b'' ''i_'' = Inr True
   \<and> is_streusle_transition_allowed (swap_variant ''b'') (swap_variant ''i_'') = Inr True
   \<and> swap_variant ''i_'' = ''i~''"
proof -
  have m: "''b'' \<in> set valid_tags" "''i_'' \<in> set valid_tags"
    by (simp_all add: valid_tags_def)
  have v: "is_streusle_transition_allowed ''b'' ''i_'' = Inr True"
    by (simp add: is_streusle_transition_allowed_def valid_tags_def)
  have s: "swap_variant ''i_'' = ''i~''"
    by (simp add: swap_variant_def)
  from C10_variant_symmetry m
  have "is_streusle_transition_allowed ''b'' ''i_''
          = is_streusle_transition_allowed (swap_variant ''b'') (swap_variant ''i_'')"
    by blast
  with m v s show ?thesis by simp
qed

text \<open>
  Claim C9. Every one of the eight label roles lies on some role sequence that starts
  with \<open>START\<close>, ends with \<open>END\<close> and has only allowed consecutive transitions.
\<close>

theorem C9_every_role_on_a_valid_path:
  "\<forall>r \<in> set label_roles.
     \<exists>seq. seq \<noteq> [] \<and> hd seq = ''START'' \<and> last seq = ''END''
           \<and> r \<in> set seq \<and> valid_sequence seq"
proof -
  let ?outside = "[''START'', ''O'', ''END'']"
  let ?gappy = "[''START'', ''B'', ''o'', ''I_'', ''END'']"
  let ?weak_u = "[''START'', ''B'', ''b'', ''i_'', ''I_'', ''END'']"
  let ?weak_t = "[''START'', ''B'', ''b'', ''i~'', ''I~'', ''END'']"
  have 1: "valid_sequence ?outside"
    by (simp add: is_streusle_transition_allowed_def valid_tags_def)
  have 2: "valid_sequence ?gappy"
    by (simp add: is_streusle_transition_allowed_def valid_tags_def)
  have 3: "valid_sequence ?weak_u"
    by (simp add: is_streusle_transition_allowed_def valid_tags_def)
  have 4: "valid_sequence ?weak_t"
    by (simp add: is_streusle_transition_allowed_def valid_tags_def)
  show ?thesis
    unfolding label_roles_def
    apply (simp only: list.set ball_simps Set.ball_empty simp_thms)
    apply (intro conjI)
           apply (rule exI[of _ ?outside]; use 1 in simp)
          apply (rule exI[of _ ?gappy]; use 2 in simp)
         apply (rule exI[of _ ?gappy]; use 2 in simp)
        apply (rule exI[of _ ?weak_u]; use 3 in simp)
       apply (rule exI[of _ ?weak_u]; use 3 in simp)
      apply (rule exI[of _ ?weak_u]; use 3 in simp)
     apply (rule exI[of _ ?weak_t]; use 4 in simp)
    apply (rule exI[of _ ?weak_t]; use 4 in simp)
    done
qed

theorem C9_every_role_on_a_valid_path_witness:
  "''b'' \<in> set label_roles
   \<and> (\<exists>seq. seq \<noteq> [] \<and> hd seq = ''START'' \<and> last seq = ''END''
            \<and> ''b'' \<in> set seq \<and> valid_sequence seq)
   \<and> valid_sequence [''START'', ''B'', ''b'', ''i_'', ''I_'', ''END'']"
proof -
  have m: "''b'' \<in> set label_roles"
    by (simp add: label_roles_def)
  have v: "valid_sequence [''START'', ''B'', ''b'', ''i_'', ''I_'', ''END'']"
    by (simp add: is_streusle_transition_allowed_def valid_tags_def)
  from C9_every_role_on_a_valid_path m v show ?thesis by blast
qed

section \<open>Properties of the transition set\<close>

lemma transition_raises_iff:
  "(\<exists>e. is_streusle_transition_allowed from_tag to_tag = Inl e)
     \<longleftrightarrow> from_tag \<notin> set valid_tags \<or> to_tag \<notin> set valid_tags"
  unfolding is_streusle_transition_allowed_def by simp

text \<open>One raising call of the predicate makes the inner loop raise.\<close>

lemma to_loop_raises:
  assumes "(j, m) \<in> set ls"
    and "is_streusle_transition_allowed ft (tag_of_label m) = Inl e"
  shows "\<exists>e'. to_loop fi ft ls acc = Inl e'"
  using assms
proof (induction ls arbitrary: acc)
  case Nil
  then show ?case by simp
next
  case (Cons x xs)
  obtain k l where x: "x = (k, l)" by (cases x)
  show ?case
  proof (cases "is_streusle_transition_allowed ft (tag_of_label l)")
    case (Inl a)
    then show ?thesis using x by simp
  next
    case (Inr b)
    with Cons.prems x have "(j, m) \<in> set xs" by auto
    from Cons.IH[OF this Cons.prems(2)] show ?thesis using x Inr by simp
  qed
qed

text \<open>
  With a label of invalid role among the targets, already the first origin label makes
  the outer loop raise: either its own role is invalid, or the inner loop reaches the
  invalid target.
\<close>

lemma from_loop_raises:
  assumes "(j, m) \<in> set lwb" and "tag_of_label m \<notin> set valid_tags"
  shows "\<exists>e. from_loop (x # xs) lwb acc = Inl e"
proof -
  obtain k l where x: "x = (k, l)" by (cases x)
  have "\<exists>e. is_streusle_transition_allowed (tag_of_label l) (tag_of_label m) = Inl e"
    using assms(2) by (simp add: transition_raises_iff)
  then obtain e' where "to_loop k (tag_of_label l) lwb acc = Inl e'"
    using to_loop_raises[OF assms(1)] by blast
  then show ?thesis using x by simp
qed

lemma streusle_allowed_transitions_raises:
  assumes "(i, l) \<in> set labels" and "tag_of_label l \<notin> set valid_tags"
  shows "\<exists>e. streusle_allowed_transitions labels = Inl e"
proof -
  obtain x xs where lab: "labels = x # xs"
    using assms(1) by (cases labels) auto
  let ?bounds = "[(int (length labels), ''START''), (int (length labels) + 1, ''END'')]"
  have "(i, l) \<in> set (labels @ ?bounds)"
    using assms(1) by simp
  from from_loop_raises[OF this assms(2), of x "xs @ ?bounds" "[]"]
  show ?thesis
    unfolding streusle_allowed_transitions_def Let_def using lab by simp
qed

text \<open>
  Claim C7. The predicate raises exactly when one of its arguments is outside the closed
  set of roles. The exception is a \<open>ValueError\<close> whose message names the side and the
  offending string (the origin side when both are invalid, as it is tested first). When
  some label of the dict has a role outside the closed set,
  \<open>streusle_allowed_transitions\<close> raises: its result is an exception and no list.
\<close>

theorem C7_invalid_role_raises:
  "((\<exists>e. is_streusle_transition_allowed from_tag to_tag = Inl e)
       \<longleftrightarrow> from_tag \<notin> set valid_tags \<or> to_tag \<notin> set valid_tags)
   \<and> (from_tag \<notin> set valid_tags \<longrightarrow>
        is_streusle_transition_allowed from_tag to_tag
          = Inl (ValueError (''Got invalid from_tag '' @ from_tag)))
   \<and> (from_tag \<in> set valid_tags \<and> to_tag \<notin> set valid_tags \<longrightarrow>
        is_streusle_transition_allowed from_tag to_tag
          = Inl (ValueError (''Got invalid to_tag '' @ to_tag)))
   \<and> ((\<exists>(i, l) \<in> set labels. tag_of_label l \<notin> set valid_tags) \<longrightarrow>
        (\<exists>e. streusle_allowed_transitions labels = Inl e))"
proof (intro conjI)
  show "(\<exists>e. is_streusle_transition_allowed from_tag to_tag = Inl e)
       \<longleftrightarrow> from_tag \<notin> set valid_tags \<or> to_tag \<notin> set valid_tags"
    by (rule transition_raises_iff)
  show "from_tag \<notin> set valid_tags \<longrightarrow>
        is_streusle_transition_allowed from_tag to_tag
          = Inl (ValueError (''Got invalid from_tag '' @ from_tag))"
    unfolding is_streusle_transition_allowed_def by simp
  show "from_tag \<in> set valid_tags \<and> to_tag \<notin> set valid_tags \<longrightarrow>
        is_streusle_transition_allowed from_tag to_tag
          = Inl (ValueError (''Got invalid to_tag '' @ to_tag))"
    unfolding is_streusle_transition_allowed_def by simp
  show "(\<exists>(i, l) \<in> set labels. tag_of_label l \<notin> set valid_tags) \<longrightarrow>
        (\<exists>e. streusle_allowed_transitions labels = Inl e)"
    using streusle_allowed_transitions_raises by blast
qed

theorem C7_invalid_role_raises_witness:
  "''X'' \<notin> set valid_tags \<and> ''O'' \<in> set valid_tags
   \<and> is_streusle_transition_allowed ''X'' ''O'' = Inl (ValueError ''Got invalid from_tag X'')
   \<and> is_streusle_transition_allowed ''O'' ''X'' = Inl (ValueError ''Got invalid to_tag X'')
   \<and> (\<exists>(i, l) \<in> set [(0::int, ''O''), (1, ''X-N'')]. tag_of_label l \<notin> set valid_tags)
   \<and> (\<exists>e. streusle_allowed_transitions [(0, ''O''), (1, ''X-N'')] = Inl e)"
proof -
  have a: "''X'' \<notin> set valid_tags" "''O'' \<in> set valid_tags"
    by (simp_all add: valid_tags_def)
  have b: "\<exists>(i, l) \<in> set [(0::int, ''O''), (1, ''X-N'')]. tag_of_label l \<notin> set valid_tags"
    by (simp add: tag_of_label_def valid_tags_def)
  show ?thesis
    using a b C7_invalid_role_raises[of "''X''" "''O''" "[(0, ''O''), (1, ''X-N'')]"]
      C7_invalid_role_raises[of "''O''" "''X''" "[]"]
    by simp
qed

text \<open>On valid roles neither loop raises, and the result list can be written down.\<close>

lemma transition_returns:
  assumes "from_tag \<in> set valid_tags" and "to_tag \<in> set valid_tags"
  shows "\<exists>b. is_streusle_transition_allowed from_tag to_tag = Inr b"
  using assms unfolding is_streusle_transition_allowed_def by auto

lemma to_loop_returns:
  assumes "ft \<in> set valid_tags"
    and "\<forall>(j, m) \<in> set ls. tag_of_label m \<in> set valid_tags"
  shows "to_loop fi ft ls acc
           = Inr (acc @ map (\<lambda>(j, m). (fi, j))
                          (filter (\<lambda>(j, m). is_streusle_transition_allowed ft (tag_of_label m) = Inr True) ls))"
  using assms(2)
proof (induction ls arbitrary: acc)
  case Nil
  then show ?case by simp
next
  case (Cons x xs)
  obtain k l where x: "x = (k, l)" by (cases x)
  from Cons.prems x have "tag_of_label l \<in> set valid_tags" by simp
  then obtain b where b: "is_streusle_transition_allowed ft (tag_of_label l) = Inr b"
    using transition_returns[OF assms(1)] by blast
  from Cons.prems have "\<forall>(j, m) \<in> set xs. tag_of_label m \<in> set valid_tags" by simp
  from Cons.IH[OF this] show ?case using x b by simp
qed

lemma from_loop_returns:
  assumes "\<forall>(j, m) \<in> set lwb. tag_of_label m \<in> set valid_tags"
    and "\<forall>(i, l) \<in> set ls. tag_of_label l \<in> set valid_tags"
  shows "from_loop ls lwb acc
           = Inr (acc @ concat (map (\<lambda>(i, l). map (\<lambda>(j, m). (i, j))
                    (filter (\<lambda>(j, m). is_streusle_transition_allowed (tag_of_label l) (tag_of_label m) = Inr True) lwb)) ls))"
  using assms(2)
proof (induction ls arbitrary: acc)
  case Nil
  then show ?case by simp
next
  case (Cons x xs)
  obtain k l where x: "x = (k, l)" by (cases x)
  from Cons.prems x have v: "tag_of_label l \<in> set valid_tags" by simp
  from Cons.prems have "\<forall>(i, l) \<in> set xs. tag_of_label l \<in> set valid_tags" by simp
  from Cons.IH[OF this] show ?case
    using x by (simp add: to_loop_returns[OF v assms(1)])
qed

lemma label_role_tag:
  assumes "split (CHR ''-'') label ! 0 \<in> set label_roles"
  shows "tag_of_label label = split (CHR ''-'') label ! 0" and "tag_of_label label \<in> set valid_tags"
proof -
  have "label \<noteq> ''START''" "label \<noteq> ''END''"
    using assms by (auto simp: label_roles_def)
  then show a: "tag_of_label label = split (CHR ''-'') label ! 0"
    by (simp add: tag_of_label_def)
  show "tag_of_label label \<in> set valid_tags"
    using assms unfolding a by (auto simp: label_roles_def valid_tags_def)
qed

lemma boundary_tags:
  "tag_of_label ''START'' = ''START''" "tag_of_label ''END'' = ''END''"
  "''START'' \<in> set valid_tags" "''END'' \<in> set valid_tags"
  by (simp_all add: tag_of_label_def valid_tags_def)

lemma streusle_allowed_transitions_returns:
  assumes "\<forall>(i, l) \<in> set labels. tag_of_label l \<in> set valid_tags"
  shows "streusle_allowed_transitions labels
           = Inr (concat (map (\<lambda>(i, l). map (\<lambda>(j, m). (i, j))
                    (filter (\<lambda>(j, m). is_streusle_transition_allowed (tag_of_label l) (tag_of_label m) = Inr True)
                       (labels @ [(int (length labels), ''START''), (int (length labels) + 1, ''END'')])))
                  (labels @ [(int (length labels), ''START''), (int (length labels) + 1, ''END'')])))"
proof -
  let ?lwb = "labels @ [(int (length labels), ''START''), (int (length labels) + 1, ''END'')]"
  have v: "\<forall>(j, m) \<in> set ?lwb. tag_of_label m \<in> set valid_tags"
    using assms by (auto simp: boundary_tags)
  show ?thesis
    unfolding streusle_allowed_transitions_def Let_def
    by (simp only: from_loop_returns[OF v v] append_Nil)
qed

text \<open>The pairs that the two nested loops collect, as a set.\<close>

lemma set_pairs:
  "set (concat (map (\<lambda>(i, l). map (\<lambda>(j, m). (i, j)) (filter (\<lambda>(j, m). P l m) lwb)) ls))
     = {(i, j). \<exists>l m. (i, l) \<in> set ls \<and> (j, m) \<in> set lwb \<and> P l m}"
  by (auto simp: image_iff) force+

text \<open>
  Claim C2, amended. For a label dict whose labels all have a first dash-delimited
  component among the eight roles, \<open>streusle_allowed_transitions\<close> returns without
  raising, and the pairs it returns are exactly the index pairs \<open>(i, j)\<close> of entries
  \<open>(i, l)\<close> and \<open>(j, m)\<close> of the dict extended by \<open>START\<close> at index \<open>num_labels\<close> and
  \<open>END\<close> at index \<open>num_labels + 1\<close> for which the predicate holds on the roles of
  \<open>l\<close> and \<open>m\<close>. When no label index of the dict equals \<open>num_labels\<close> or
  \<open>num_labels + 1\<close> (as in a vocabulary numbered from 0), no returned pair has the
  \<open>START\<close> index as its target or the \<open>END\<close> index as its origin.
\<close>

theorem C2_transition_set:
  assumes "\<forall>(i, l) \<in> set labels. split (CHR ''-'') l ! 0 \<in> set label_roles"
  shows "\<exists>allowed.
      streusle_allowed_transitions labels = Inr allowed
    \<and> set allowed =
        {(i, j). \<exists>l m.
           (i, l) \<in> set (labels @ [(int (length labels), ''START''), (int (length labels) + 1, ''END'')])
         \<and> (j, m) \<in> set (labels @ [(int (length labels), ''START''), (int (length labels) + 1, ''END'')])
         \<and> is_streusle_transition_allowed (tag_of_label l) (tag_of_label m) = Inr True}
    \<and> ((\<forall>(i, l) \<in> set labels. i \<noteq> int (length labels) \<and> i \<noteq> int (length labels) + 1) \<longrightarrow>
        (\<forall>(i, j) \<in> set allowed. j \<noteq> int (length labels) \<and> i \<noteq> int (length labels) + 1))"
proof -
  let ?n = "int (length labels)"
  let ?lwb = "labels @ [(?n, ''START''), (?n + 1, ''END'')]"
  let ?ok = "\<lambda>l m. is_streusle_transition_allowed (tag_of_label l) (tag_of_label m) = Inr True"
  let ?pairs = "{(i, j). \<exists>l m. (i, l) \<in> set ?lwb \<and> (j, m) \<in> set ?lwb \<and> ?ok l m}"
  have valid: "\<forall>(i, l) \<in> set labels. tag_of_label l \<in> set valid_tags"
    using assms label_role_tag(2) by blast
  obtain allowed where res: "streusle_allowed_transitions labels = Inr allowed"
    and set_eq: "set allowed = ?pairs"
    using streusle_allowed_transitions_returns[OF valid] set_pairs[of ?ok ?lwb ?lwb]
    by simp
  have no_start: "\<not> ?ok l ''START''" for l
    by (simp add: boundary_tags is_streusle_transition_allowed_def)
  have no_end: "\<not> ?ok ''END'' m" for m
    by (simp add: boundary_tags is_streusle_transition_allowed_def)
  have "\<forall>(i, j) \<in> set allowed. j \<noteq> ?n \<and> i \<noteq> ?n + 1"
    if fresh: "\<forall>(i, l) \<in> set labels. i \<noteq> ?n \<and> i \<noteq> ?n + 1"
  proof (clarify, rule conjI)
    fix i j assume "(i, j) \<in> set allowed"
    then obtain l m where il: "(i, l) \<in> set ?lwb" and jm: "(j, m) \<in> set ?lwb" and ok: "?ok l m"
      unfolding set_eq by blast
    show "j \<noteq> ?n"
    proof
      assume "j = ?n"
      with jm fresh have "m = ''START''" by auto
      with ok no_start show False by blast
    qed
    show "i \<noteq> ?n + 1"
    proof
      assume "i = ?n + 1"
      with il fresh have "l = ''END''" by auto
      with ok no_end show False by blast
    qed
  qed
  with res set_eq show ?thesis by blast
qed

theorem C2_transition_set_witness:
  "split (CHR ''-'') ''O'' ! 0 \<in> set label_roles
   \<and> split (CHR ''-'') ''B-N'' ! 0 \<in> set label_roles
   \<and> int (length [(0::int, ''O''), (1, ''B-N'')]) = 2
   \<and> streusle_allowed_transitions [(0, ''O''), (1, ''B-N'')]
       = Inr [(0, 0), (0, 1), (0, 3), (2, 0), (2, 1)]
   \<and> list_all (\<lambda>(i, j). j \<noteq> 2 \<and> i \<noteq> 3) [(0::int, 0::int), (0, 1), (0, 3), (2, 0), (2, 1)]"
proof -
  let ?labels = "[(0::int, ''O''), (1, ''B-N'')]"
  have h: "\<forall>(i, l) \<in> set ?labels. split (CHR ''-'') l ! 0 \<in> set label_roles"
    by (simp add: label_roles_def)
  have f: "\<forall>(i, l) \<in> set ?labels. i \<noteq> int (length ?labels) \<and> i \<noteq> int (length ?labels) + 1"
    by simp
  have r: "streusle_allowed_transitions ?labels = Inr [(0, 0), (0, 1), (0, 3), (2, 0), (2, 1)]"
    by (simp add: streusle_allowed_transitions_def tag_of_label_def
        is_streusle_transition_allowed_def valid_tags_def)
  from C2_transition_set[OF h] obtain allowed
    where a: "streusle_allowed_transitions ?labels = Inr allowed"
      and c: "(\<forall>(i, l) \<in> set ?labels. i \<noteq> int (length ?labels) \<and> i \<noteq> int (length ?labels) + 1) \<longrightarrow>
              (\<forall>(i, j) \<in> set allowed. j \<noteq> int (length ?labels) \<and> i \<noteq> int (length ?labels) + 1)"
    by blast
  from a r have "allowed = [(0, 0), (0, 1), (0, 3), (2, 0), (2, 1)]"
    by simp
  with c f have "\<forall>(i, j) \<in> set [(0::int, 0::int), (0, 1), (0, 3), (2, 0), (2, 1)].
      j \<noteq> int (length ?labels) \<and> i \<noteq> int (length ?labels) + 1"
    by blast
  then have "list_all (\<lambda>(i, j). j \<noteq> 2 \<and> i \<noteq> 3) [(0::int, 0::int), (0, 1), (0, 3), (2, 0), (2, 1)]"
    by simp
  with h r show ?thesis
    by simp
qed

text \<open>
  The restriction on the indices is needed. The dict \<open>{1: "O"}\<close> has one label, so
  \<open>START\<close> gets the index 1, which the label \<open>O\<close> already has; the transition from \<open>O\<close>
  to \<open>O\<close> is allowed and puts the pair \<open>(1, 1)\<close> into the result, a pair whose target is
  the \<open>START\<close> index.
\<close>

theorem C2_index_collision_counterexample:
  "split (CHR ''-'') ''O'' ! 0 \<in> set label_roles
   \<and> streusle_allowed_transitions [(1, ''O'')] = Inr [(1, 1), (1, 2), (1, 1)]
   \<and> (1, 1) \<in> set [(1::int, 1::int), (1, 2), (1, 1)]
   \<and> snd (1::int, 1::int) = int (length [(1::int, ''O'')])"
  by (simp add: label_roles_def streusle_allowed_transitions_def tag_of_label_def
        is_streusle_transition_allowed_def valid_tags_def)

section \<open>Properties of the lexcat compatibility table\<close>

lemma is_allowed_refines_spec: "is_allowed upos lexcat = spec_is_allowed upos lexcat"
  unfolding is_allowed_def spec_is_allowed_def Let_def
  by auto

text \<open>
  Claim C3. On every UPOS tag of \<open>ALL_UPOS\<close> and every lexcat of \<open>ALL_LEXCATS\<close>,
  \<open>is_allowed\<close> is true exactly under the conditions the specification lists. The pair
  \<open>(PRON, PRON.POSS)\<close> is allowed and \<open>(PRON, N)\<close> is not, and none of the three pairs
  that the comments of the source reserve for particular lemmas, \<open>(AUX, V)\<close>,
  \<open>(ADP, CCONJ)\<close> and \<open>(PART, INF)\<close>, is allowed.
\<close>

theorem C3_is_allowed_matches_table:
  "(\<forall>upos \<in> set ALL_UPOS. \<forall>lexcat \<in> set ALL_LEXCATS.
      is_allowed upos lexcat = spec_is_allowed upos lexcat)
   \<and> is_allowed ''PRON'' ''PRON.POSS'' = True
   \<and> is_allowed ''PRON'' ''N'' = False
   \<and> is_allowed ''AUX'' ''V'' = False
   \<and> is_allowed ''ADP'' ''CCONJ'' = False
   \<and> is_allowed ''PART'' ''INF'' = False"
proof -
  have "is_allowed ''PRON'' ''PRON.POSS'' = True"
    by (simp add: is_allowed_def endswith_def startswith_def)
  moreover have "is_allowed ''PRON'' ''N'' = False"
    by (simp add: is_allowed_def endswith_def startswith_def)
  moreover have "is_allowed ''AUX'' ''V'' = False"
    by (simp add: is_allowed_def endswith_def startswith_def)
  moreover have "is_allowed ''ADP'' ''CCONJ'' = False"
    by (simp add: is_allowed_def endswith_def startswith_def)
  moreover have "is_allowed ''PART'' ''INF'' = False"
    by (simp add: is_allowed_def endswith_def startswith_def)
  ultimately show ?thesis
    using is_allowed_refines_spec by blast
qed

theorem C3_is_allowed_matches_table_witness:
  "''SCONJ'' \<in> set ALL_UPOS \<and> ''INF.P'' \<in> set ALL_LEXCATS
   \<and> is_allowed ''SCONJ'' ''INF.P'' = spec_is_allowed ''SCONJ'' ''INF.P''
   \<and> spec_is_allowed ''SCONJ'' ''INF.P''"
proof -
  have m: "''SCONJ'' \<in> set ALL_UPOS" "''INF.P'' \<in> set ALL_LEXCATS"
    by (simp_all add: ALL_UPOS_def ALL_LEXCATS_def)
  have "spec_is_allowed ''SCONJ'' ''INF.P''"
    by (simp add: spec_is_allowed_def startswith_def)
  with m C3_is_allowed_matches_table show ?thesis by blast
qed

text \<open>
  What the double loop of \<open>get_upos_allowed_lexcats\<close> leaves under a key: first for one
  step of the body, then for the inner loop, then for both loops.
\<close>

lemma add_combination_apply:
  "add_combination lexcat universal_pos ac u =
     (if u = universal_pos \<and> is_allowed universal_pos lexcat
      then Some (insert lexcat (case ac u of None \<Rightarrow> {} | Some s \<Rightarrow> s))
      else ac u)"
  by (auto simp: add_combination_def Let_def split: option.splits)

lemma inner_fold_apply:
  "fold (add_combination lexcat) us ac u =
     (if u \<in> set us \<and> is_allowed u lexcat
      then Some (insert lexcat (case ac u of None \<Rightarrow> {} | Some s \<Rightarrow> s))
      else ac u)"
proof (induction us arbitrary: ac)
  case Nil
  then show ?case by simp
next
  case (Cons x xs)
  have "fold (add_combination lexcat) (x # xs) ac u
          = fold (add_combination lexcat) xs (add_combination lexcat x ac) u"
    by simp
  also have "\<dots> = (if u \<in> set xs \<and> is_allowed u lexcat
      then Some (insert lexcat (case add_combination lexcat x ac u of None \<Rightarrow> {} | Some s \<Rightarrow> s))
      else add_combination lexcat x ac u)"
    by (rule Cons.IH)
  also have "\<dots> = (if u \<in> set (x # xs) \<and> is_allowed u lexcat
      then Some (insert lexcat (case ac u of None \<Rightarrow> {} | Some s \<Rightarrow> s))
      else ac u)"
    by (auto simp: add_combination_apply)
  finally show ?case .
qed

lemma outer_fold_apply:
  "fold (\<lambda>lexcat ac. fold (add_combination lexcat) us ac) ls ac u =
     (if \<exists>l \<in> set ls. u \<in> set us \<and> is_allowed u l
      then Some ({l \<in> set ls. u \<in> set us \<and> is_allowed u l} \<union> (case ac u of None \<Rightarrow> {} | Some s \<Rightarrow> s))
      else ac u)"
proof (induction ls arbitrary: ac)
  case Nil
  then show ?case by simp
next
  case (Cons x xs)
  let ?f = "\<lambda>lexcat ac. fold (add_combination lexcat) us ac"
  let ?ac = "fold (add_combination x) us ac"
  have "fold ?f (x # xs) ac u = fold ?f xs ?ac u"
    by simp
  also have "\<dots> = (if \<exists>l \<in> set xs. u \<in> set us \<and> is_allowed u l
      then Some ({l \<in> set xs. u \<in> set us \<and> is_allowed u l}
                 \<union> (case ?ac u of None \<Rightarrow> {} | Some s \<Rightarrow> s))
      else ?ac u)"
    by (rule Cons.IH)
  also have "\<dots> = (if \<exists>l \<in> set (x # xs). u \<in> set us \<and> is_allowed u l
      then Some ({l \<in> set (x # xs). u \<in> set us \<and> is_allowed u l}
                 \<union> (case ac u of None \<Rightarrow> {} | Some s \<Rightarrow> s))
      else ac u)"
    unfolding inner_fold_apply by auto
  finally show ?case .
qed

lemma get_upos_allowed_lexcats_apply:
  "get_upos_allowed_lexcats u =
     (if \<exists>l \<in> set ALL_LEXCATS. u \<in> set ALL_UPOS \<and> is_allowed u l
      then Some {l \<in> set ALL_LEXCATS. u \<in> set ALL_UPOS \<and> is_allowed u l}
      else None)"
  unfolding get_upos_allowed_lexcats_def outer_fold_apply by simp

lemma every_upos_has_lexcat:
  "\<forall>u \<in> set ALL_UPOS. \<exists>l \<in> set ALL_LEXCATS. is_allowed u l"
proof -
  have a: "is_allowed u u" for u by (simp add: is_allowed_def)
  have b: "is_allowed ''VERB'' ''V''" "is_allowed ''ADP'' ''P''" "is_allowed ''NOUN'' ''N''"
    "is_allowed ''PROPN'' ''N''" "is_allowed ''PART'' ''POSS''"
    by (simp_all add: is_allowed_def)
  have c: "''V'' \<in> set ALL_LEXCATS" "''P'' \<in> set ALL_LEXCATS" "''N'' \<in> set ALL_LEXCATS"
    "''POSS'' \<in> set ALL_LEXCATS" "''X'' \<in> set ALL_LEXCATS" "''INTJ'' \<in> set ALL_LEXCATS"
    "''ADV'' \<in> set ALL_LEXCATS" "''CCONJ'' \<in> set ALL_LEXCATS" "''PUNCT'' \<in> set ALL_LEXCATS"
    "''SYM'' \<in> set ALL_LEXCATS" "''ADJ'' \<in> set ALL_LEXCATS" "''DET'' \<in> set ALL_LEXCATS"
    "''PRON'' \<in> set ALL_LEXCATS" "''SCONJ'' \<in> set ALL_LEXCATS" "''NUM'' \<in> set ALL_LEXCATS"
    "''AUX'' \<in> set ALL_LEXCATS"
    by (simp_all add: ALL_LEXCATS_def)
  show ?thesis
    unfolding ALL_UPOS_def
    apply (simp only: list.set ball_simps Set.ball_empty simp_thms)
    using a b c by blast
qed

text \<open>
  Claim C8. \<open>ALL_UPOS\<close> has 17 different tags, and the dict that
  \<open>get_upos_allowed_lexcats\<close> returns has an entry for each of them, whose set of lexcats
  is not empty.
\<close>

theorem C8_every_upos_has_lexcats:
  "length ALL_UPOS = 17 \<and> distinct ALL_UPOS
   \<and> (\<forall>u \<in> set ALL_UPOS. \<exists>lexcats. get_upos_allowed_lexcats u = Some lexcats \<and> lexcats \<noteq> {})"
proof -
  have "length ALL_UPOS = 17" "distinct ALL_UPOS"
    by (simp_all add: ALL_UPOS_def)
  moreover have "\<exists>lexcats. get_upos_allowed_lexcats u = Some lexcats \<and> lexcats \<noteq> {}"
    if "u \<in> set ALL_UPOS" for u
  proof -
    from that every_upos_has_lexcat obtain l where "l \<in> set ALL_LEXCATS" "is_allowed u l"
      by blast
    with that show ?thesis
      unfolding get_upos_allowed_lexcats_apply by auto
  qed
  ultimately show ?thesis by blast
qed

theorem C8_every_upos_has_lexcats_witness:
  "''AUX'' \<in> set ALL_UPOS
   \<and> (\<exists>lexcats. get_upos_allowed_lexcats ''AUX'' = Some lexcats \<and> lexcats \<noteq> {})"
proof -
  have "''AUX'' \<in> set ALL_UPOS"
    by (simp add: ALL_UPOS_def)
  with C8_every_upos_has_lexcats show ?thesis by blast
qed

section \<open>Properties of the per-UPOS label masks\<close>

lemma split_nonempty: "split sep s \<noteq> []"
  by (induction s) (auto split: list.splits)

lemma split_length: "length (split sep s) \<noteq> 1 \<Longrightarrow> 1 < length (split sep s)"
  using split_nonempty[of sep s] by (cases "split sep s") auto

text \<open>
  One round of the label loop with an index inside the tensor: the entry is set to 1 when
  the label is admissible and left alone otherwise.
\<close>

lemma label_loop_step:
  assumes "table u = Some S" and "0 \<le> i" and "i < int (length t)"
  shows "label_loop table u ((i, l) # rest) t
           = label_loop table u rest (if spec_admissible table u l then t[nat i := 1] else t)"
  using assms split_length[of "CHR ''-''" l]
  by (auto simp: tensor_set_def spec_admissible_def Let_def)

text \<open>
  The whole loop over a dict with different keys, all inside the tensor: it does not
  raise, it sets the entries of the admissible labels and changes no other entry.
\<close>

lemma label_loop_result:
  assumes "table u = Some S"
    and "distinct (map fst ls)"
    and "\<forall>(i, l) \<in> set ls. 0 \<le> i \<and> i < int (length t)"
  shows "\<exists>m. label_loop table u ls t = Inr m \<and> length m = length t
           \<and> (\<forall>(i, l) \<in> set ls. m ! nat i = (if spec_admissible table u l then 1 else t ! nat i))
           \<and> (\<forall>k < length t. int k \<notin> fst ` set ls \<longrightarrow> m ! k = t ! k)"
  using assms(2,3)
proof (induction ls arbitrary: t)
  case Nil
  then show ?case by simp
next
  case (Cons x xs)
  obtain i l where x: "x = (i, l)" by (cases x)
  let ?next = "if spec_admissible table u l then t[nat i := 1] else t"
  have len: "length ?next = length t" by simp
  from Cons.prems x have i: "0 \<le> i" "i < int (length t)" by auto
  from Cons.prems x have fresh: "i \<notin> fst ` set xs" by auto
  have step: "label_loop table u (x # xs) t = label_loop table u xs ?next"
    unfolding x by (rule label_loop_step[where table=table and u=u, OF assms(1) i])
  from Cons.prems have d: "distinct (map fst xs)" by simp
  from Cons.prems have r: "\<forall>(j, l') \<in> set xs. 0 \<le> j \<and> j < int (length ?next)" by auto
  from Cons.IH[OF d r] obtain m where
    m: "label_loop table u xs ?next = Inr m" "length m = length t"
    and inside: "\<forall>(j, l') \<in> set xs. m ! nat j = (if spec_admissible table u l' then 1 else ?next ! nat j)"
    and outside: "\<forall>k < length t. int k \<notin> fst ` set xs \<longrightarrow> m ! k = ?next ! k"
    unfolding len by blast
  have here: "m ! nat i = (if spec_admissible table u l then 1 else t ! nat i)"
  proof -
    have "nat i < length t" "int (nat i) \<notin> fst ` set xs" using i fresh by auto
    with outside have "m ! nat i = ?next ! nat i" by blast
    then show ?thesis using i by simp
  qed
  have there: "m ! nat j = (if spec_admissible table u l' then 1 else t ! nat j)"
    if "(j, l') \<in> set xs" for j l'
  proof -
    from that fresh have "j \<noteq> i" by force
    moreover from that r have "0 \<le> j" by auto
    ultimately have "nat j \<noteq> nat i" using i by simp
    then have "?next ! nat j = t ! nat j" by simp
    with inside that show ?thesis by auto
  qed
  have away: "m ! k = t ! k" if "k < length t" "int k \<notin> fst ` set (x # xs)" for k
  proof -
    from that x i have "k \<noteq> nat i" "int k \<notin> fst ` set xs" by auto
    with outside that(1) have "m ! k = ?next ! k" by blast
    with \<open>k \<noteq> nat i\<close> show ?thesis by simp
  qed
  show ?case
    unfolding step using m here there away x by auto
qed

text \<open>The index-to-token dict of a vocabulary namespace.\<close>

lemma vocabulary_items:
  "distinct (map fst (get_index_to_token_vocabulary vocab))"
  "length (get_index_to_token_vocabulary vocab) = length vocab"
  "\<forall>(i, l) \<in> set (get_index_to_token_vocabulary vocab). 0 \<le> i \<and> i < int (length vocab)"
  "i < length vocab \<Longrightarrow> (int i, vocab ! i) \<in> set (get_index_to_token_vocabulary vocab)"
proof -
  show "distinct (map fst (get_index_to_token_vocabulary vocab))"
    by (simp add: get_index_to_token_vocabulary_def distinct_map inj_on_def)
  show "length (get_index_to_token_vocabulary vocab) = length vocab"
    by (simp add: get_index_to_token_vocabulary_def)
  show "\<forall>(i, l) \<in> set (get_index_to_token_vocabulary vocab). 0 \<le> i \<and> i < int (length vocab)"
    by (auto simp: get_index_to_token_vocabulary_def dest!: set_zip_leftD)
  show "i < length vocab \<Longrightarrow> (int i, vocab ! i) \<in> set (get_index_to_token_vocabulary vocab)"
    by (auto simp: get_index_to_token_vocabulary_def set_zip intro!: exI[of _ i])
qed

lemma upos_label_mask_result:
  assumes "table u = Some S" and "i < length vocab"
  shows "\<exists>m. upos_label_mask table (get_index_to_token_vocabulary vocab) u = Inr m
           \<and> length m = length vocab
           \<and> m ! i = (if spec_admissible table u (vocab ! i) then 1 else 0)"
proof -
  let ?labels = "get_index_to_token_vocabulary vocab"
  let ?zeros = "replicate (length ?labels) (0::real)"
  have r: "\<forall>(i, l) \<in> set ?labels. 0 \<le> i \<and> i < int (length ?zeros)"
    using vocabulary_items(3)[of vocab] by (simp add: vocabulary_items(2))
  from label_loop_result[where table=table and u=u and ls="?labels" and t="?zeros", OF assms(1) vocabulary_items(1) r] obtain m where
    m: "label_loop table u ?labels ?zeros = Inr m" "length m = length vocab"
    and inside: "\<forall>(j, l) \<in> set ?labels. m ! nat j = (if spec_admissible table u l then 1 else ?zeros ! nat j)"
    by (auto simp: vocabulary_items(2))
  from inside vocabulary_items(4)[OF assms(2)]
  have "m ! nat (int i) = (if spec_admissible table u (vocab ! i) then 1 else ?zeros ! nat (int i))"
    by blast
  then have "m ! i = (if spec_admissible table u (vocab ! i) then 1 else 0)"
    using assms(2) by (simp add: vocabulary_items(2))
  with m show ?thesis unfolding upos_label_mask_def by blast
qed

text \<open>
  The loop over the UPOS tags stores the mask of every tag it visits, provided none of
  the masks raises.
\<close>

lemma upos_loop_result:
  assumes "\<forall>u \<in> set us. \<exists>m. upos_label_mask table labels u = Inr m"
  shows "\<exists>masks. upos_loop table labels us acc = Inr masks
           \<and> (\<forall>u m. u \<in> set us \<and> upos_label_mask table labels u = Inr m \<longrightarrow> masks u = Some m)
           \<and> (\<forall>u. u \<notin> set us \<longrightarrow> masks u = acc u)"
  using assms
proof (induction us arbitrary: acc)
  case Nil
  then show ?case by simp
next
  case (Cons x xs)
  from Cons.prems obtain mx where mx: "upos_label_mask table labels x = Inr mx" by auto
  from Cons.prems have "\<forall>u \<in> set xs. \<exists>m. upos_label_mask table labels u = Inr m" by simp
  from Cons.IH[OF this, of "acc(x \<mapsto> mx)"] obtain masks where
    r: "upos_loop table labels xs (acc(x \<mapsto> mx)) = Inr masks"
    and inside: "\<forall>u m. u \<in> set xs \<and> upos_label_mask table labels u = Inr m \<longrightarrow> masks u = Some m"
    and outside: "\<forall>u. u \<notin> set xs \<longrightarrow> masks u = (acc(x \<mapsto> mx)) u"
    by blast
  have "masks u = Some m" if "u \<in> set (x # xs)" "upos_label_mask table labels u = Inr m" for u m
  proof (cases "u \<in> set xs")
    case True
    with inside that show ?thesis by blast
  next
    case False
    with that have "u = x" "m = mx" using mx by auto
    with outside False show ?thesis by simp
  qed
  moreover have "masks u = acc u" if "u \<notin> set (x # xs)" for u
    using outside that by simp
  ultimately show ?case
    using r mx by simp
qed

lemma table_has_every_upos:
  assumes "u \<in> set ALL_UPOS"
  shows "\<exists>S. get_upos_allowed_lexcats u = Some S"
proof -
  from assms every_upos_has_lexcat obtain l where "l \<in> set ALL_LEXCATS" "is_allowed u l"
    by blast
  with assms show ?thesis
    unfolding get_upos_allowed_lexcats_apply by auto
qed

lemma upos_label_mask_returns:
  assumes "u \<in> set ALL_UPOS"
  shows "\<exists>m. upos_label_mask get_upos_allowed_lexcats (get_index_to_token_vocabulary vocab) u = Inr m
             \<and> length m = length vocab"
proof -
  let ?labels = "get_index_to_token_vocabulary vocab"
  let ?zeros = "replicate (length ?labels) (0::real)"
  from table_has_every_upos[OF assms] obtain S where S: "get_upos_allowed_lexcats u = Some S" ..
  have r: "\<forall>(i, l) \<in> set ?labels. 0 \<le> i \<and> i < int (length ?zeros)"
    using vocabulary_items(3)[of vocab] by (simp add: vocabulary_items(2))
  from label_loop_result[where table=get_upos_allowed_lexcats and u=u and ls="?labels" and t="?zeros",
      OF S vocabulary_items(1) r]
  show ?thesis unfolding upos_label_mask_def by (auto simp: vocabulary_items(2))
qed

text \<open>The constructor: what it stores, when it returns, and the attributes it sets.\<close>

lemma init_masks:
  assumes "init vocab True = Inr self" and "u \<in> set ALL_UPOS"
    and "upos_label_mask get_upos_allowed_lexcats (get_index_to_token_vocabulary vocab) u = Inr m"
  shows "\<exists>masks. upos_to_label_mask self = Some masks \<and> masks u = Some m"
proof -
  let ?labels = "get_index_to_token_vocabulary vocab"
  have "\<forall>u \<in> set ALL_UPOS. \<exists>m. upos_label_mask get_upos_allowed_lexcats ?labels u = Inr m"
    using upos_label_mask_returns by blast
  from upos_loop_result[OF this, of Map.empty] obtain masks where
    r: "upos_loop get_upos_allowed_lexcats ?labels ALL_UPOS Map.empty = Inr masks"
    and inside: "\<forall>u m. u \<in> set ALL_UPOS \<and> upos_label_mask get_upos_allowed_lexcats ?labels u = Inr m
                   \<longrightarrow> masks u = Some m"
    by blast
  from assms(1) r have "upos_to_label_mask self = Some masks"
    unfolding init_def Let_def by (auto split: sum.splits)
  with inside assms(2,3) show ?thesis by blast
qed

lemma init_returns:
  assumes "\<forall>l \<in> set vocab. tag_of_label l \<in> set valid_tags"
  shows "\<exists>self. init vocab b = Inr self"
proof -
  let ?labels = "get_index_to_token_vocabulary vocab"
  have "\<forall>(i, l) \<in> set ?labels. tag_of_label l \<in> set valid_tags"
    using assms by (auto simp: get_index_to_token_vocabulary_def dest!: set_zip_rightD)
  from streusle_allowed_transitions_returns[OF this] obtain cs where
    cs: "streusle_allowed_transitions ?labels = Inr cs" by blast
  have "\<forall>u \<in> set ALL_UPOS. \<exists>m. upos_label_mask get_upos_allowed_lexcats ?labels u = Inr m"
    using upos_label_mask_returns by blast
  from upos_loop_result[OF this, of Map.empty] obtain masks where
    r: "upos_loop get_upos_allowed_lexcats ?labels ALL_UPOS Map.empty = Inr masks"
    by blast
  show ?thesis
    unfolding init_def Let_def using cs r by simp
qed

lemma init_attributes:
  assumes "init vocab b = Inr self"
  shows "use_upos_constraints self = b" and "use_lemma_constraints self = None"
    and "num_tags self = length vocab"
  using assms unfolding init_def Let_def by (auto split: sum.splits if_splits)

text \<open>The NOUN row of the compatibility table, and the example alphabet under NOUN.\<close>

lemma table_member:
  assumes "get_upos_allowed_lexcats u = Some S"
  shows "l \<in> S \<longleftrightarrow> l \<in> set ALL_LEXCATS \<and> u \<in> set ALL_UPOS \<and> is_allowed u l"
  using assms unfolding get_upos_allowed_lexcats_apply by (auto split: if_splits)

lemma noun_table:
  "\<exists>S. get_upos_allowed_lexcats ''NOUN'' = Some S \<and> ''N'' \<in> S \<and> ''V'' \<notin> S"
proof -
  have u: "''NOUN'' \<in> set ALL_UPOS" by (simp add: ALL_UPOS_def)
  from table_has_every_upos[OF u] obtain S where S: "get_upos_allowed_lexcats ''NOUN'' = Some S" ..
  have "''N'' \<in> set ALL_LEXCATS" by (simp add: ALL_LEXCATS_def)
  moreover have "is_allowed ''NOUN'' ''N''" by (simp add: is_allowed_def)
  moreover have "\<not> is_allowed ''NOUN'' ''V''"
    by (simp add: is_allowed_def endswith_def startswith_def)
  ultimately show ?thesis using S u table_member[OF S] by blast
qed

lemma noun_example:
  "upos_label_mask get_upos_allowed_lexcats
     (get_index_to_token_vocabulary [''O'', ''O-N-n.person'', ''O-V-v.cognition'', ''B'']) ''NOUN''
   = Inr [1, 1, 0, 1]"
proof -
  from noun_table obtain S where S: "get_upos_allowed_lexcats ''NOUN'' = Some S" "''N'' \<in> S" "''V'' \<notin> S"
    by blast
  show ?thesis
    unfolding upos_label_mask_def get_index_to_token_vocabulary_def
    by (simp add: S tensor_set_def startswith_def)
qed

lemma noun_example_admissible:
  "spec_admissible get_upos_allowed_lexcats ''NOUN'' ''O''"
  "spec_admissible get_upos_allowed_lexcats ''NOUN'' ''O-N-n.person''"
  "\<not> spec_admissible get_upos_allowed_lexcats ''NOUN'' ''O-V-v.cognition''"
  "spec_admissible get_upos_allowed_lexcats ''NOUN'' ''B''"
proof -
  from noun_table obtain S where S: "get_upos_allowed_lexcats ''NOUN'' = Some S" "''N'' \<in> S" "''V'' \<notin> S"
    by blast
  show "spec_admissible get_upos_allowed_lexcats ''NOUN'' ''O''"
    by (simp add: spec_admissible_def)
  show "spec_admissible get_upos_allowed_lexcats ''NOUN'' ''O-N-n.person''"
    by (simp add: spec_admissible_def S)
  show "\<not> spec_admissible get_upos_allowed_lexcats ''NOUN'' ''O-V-v.cognition''"
    by (simp add: spec_admissible_def S startswith_def)
  show "spec_admissible get_upos_allowed_lexcats ''NOUN'' ''B''"
    by (simp add: spec_admissible_def)
qed

text \<open>
  Claim C4. For every UPOS tag of \<open>ALL_UPOS\<close> and every label of the vocabulary, the
  mask built for the tag has the entry 1 at the label's index exactly when the label is
  admissible: it has no lexcat component, or does not start with \<open>O-\<close> or \<open>o-\<close>, or has
  its lexcat in the allowed set of the tag; every other entry is 0. A label without a
  lexcat component has the entry 1 under every tag. The mask is the one the constructor
  stores under the tag. Under NOUN, the alphabet \<open>O\<close>, \<open>O-N-n.person\<close>,
  \<open>O-V-v.cognition\<close>, \<open>B\<close> gets the mask 1, 1, 0, 1.
\<close>

theorem C4_label_mask_admissibility:
  "(\<forall>u \<in> set ALL_UPOS. \<forall>i < length vocab.
      \<exists>m. upos_label_mask get_upos_allowed_lexcats (get_index_to_token_vocabulary vocab) u = Inr m
         \<and> length m = length vocab
         \<and> (m ! i = 1 \<longleftrightarrow> spec_admissible get_upos_allowed_lexcats u (vocab ! i))
         \<and> (m ! i \<noteq> 1 \<longrightarrow> m ! i = 0)
         \<and> (length (split (CHR ''-'') (vocab ! i)) = 1 \<longrightarrow> m ! i = 1)
         \<and> (\<forall>self. init vocab True = Inr self \<longrightarrow>
               (\<exists>masks. upos_to_label_mask self = Some masks \<and> masks u = Some m)))
   \<and> upos_label_mask get_upos_allowed_lexcats
        (get_index_to_token_vocabulary [''O'', ''O-N-n.person'', ''O-V-v.cognition'', ''B''])
        ''NOUN''
      = Inr [1, 1, 0, 1]"
proof -
  have "\<exists>m. upos_label_mask get_upos_allowed_lexcats (get_index_to_token_vocabulary vocab) u = Inr m
         \<and> length m = length vocab
         \<and> (m ! i = 1 \<longleftrightarrow> spec_admissible get_upos_allowed_lexcats u (vocab ! i))
         \<and> (m ! i \<noteq> 1 \<longrightarrow> m ! i = 0)
         \<and> (length (split (CHR ''-'') (vocab ! i)) = 1 \<longrightarrow> m ! i = 1)
         \<and> (\<forall>self. init vocab True = Inr self \<longrightarrow>
               (\<exists>masks. upos_to_label_mask self = Some masks \<and> masks u = Some m))"
    if u: "u \<in> set ALL_UPOS" and i: "i < length vocab" for u i
  proof -
    from table_has_every_upos[OF u] obtain S where S: "get_upos_allowed_lexcats u = Some S" ..
    from upos_label_mask_result[where table=get_upos_allowed_lexcats and u=u, OF S i]
    obtain m where
      m: "upos_label_mask get_upos_allowed_lexcats (get_index_to_token_vocabulary vocab) u = Inr m"
      and len: "length m = length vocab"
      and at: "m ! i = (if spec_admissible get_upos_allowed_lexcats u (vocab ! i) then 1 else 0)"
      by blast
    have role_only: "spec_admissible get_upos_allowed_lexcats u (vocab ! i)"
      if "length (split (CHR ''-'') (vocab ! i)) = 1"
      using that by (simp add: spec_admissible_def)
    have stored: "\<exists>masks. upos_to_label_mask self = Some masks \<and> masks u = Some m"
      if "init vocab True = Inr self" for self
      using init_masks[OF that u m] .
    from m len at role_only stored show ?thesis
      by (intro exI[of _ m]) auto
  qed
  with noun_example show ?thesis by blast
qed

theorem C4_label_mask_admissibility_witness:
  "''NOUN'' \<in> set ALL_UPOS
   \<and> 2 < length [''O'', ''O-N-n.person'', ''O-V-v.cognition'', ''B'']
   \<and> \<not> spec_admissible get_upos_allowed_lexcats ''NOUN'' ''O-V-v.cognition''
   \<and> (\<exists>self masks m. init [''O'', ''O-N-n.person'', ''O-V-v.cognition'', ''B''] True = Inr self
         \<and> upos_to_label_mask self = Some masks \<and> masks ''NOUN'' = Some m \<and> m ! 2 = 0)"
proof -
  let ?vocab = "[''O'', ''O-N-n.person'', ''O-V-v.cognition'', ''B'']"
  have u: "''NOUN'' \<in> set ALL_UPOS" by (simp add: ALL_UPOS_def)
  have i: "2 < length ?vocab" by simp
  have n: "\<not> spec_admissible get_upos_allowed_lexcats ''NOUN'' (?vocab ! 2)"
    using noun_example_admissible(3) by simp
  have "\<forall>l \<in> set ?vocab. tag_of_label l \<in> set valid_tags"
    by (simp add: tag_of_label_def valid_tags_def)
  from init_returns[OF this] obtain self where self: "init ?vocab True = Inr self" ..
  note C4_label_mask_admissibility[of ?vocab, THEN conjunct1, THEN bspec, OF u, THEN spec, of 2, THEN mp, OF i]
  then obtain m where
    a: "m ! 2 = 1 \<longleftrightarrow> spec_admissible get_upos_allowed_lexcats ''NOUN'' (?vocab ! 2)"
    and b: "m ! 2 \<noteq> 1 \<longrightarrow> m ! 2 = 0"
    and c: "\<forall>self. init ?vocab True = Inr self \<longrightarrow>
       (\<exists>masks. upos_to_label_mask self = Some masks \<and> masks ''NOUN'' = Some m)"
    by (elim exE conjE)
  from a b n have z: "m ! 2 = 0" by blast
  from c self obtain masks where "upos_to_label_mask self = Some masks" "masks ''NOUN'' = Some m"
    by blast
  with z self have "\<exists>self masks m. init ?vocab True = Inr self
         \<and> upos_to_label_mask self = Some masks \<and> masks ''NOUN'' = Some m \<and> m ! 2 = 0"
    by blast
  with u i noun_example_admissible(3) show ?thesis by (intro conjI)
qed

section \<open>The per-token mask of a batch and the forward pass\<close>

text \<open>
  No tag of \<open>ALL_UPOS\<close> has exactly two characters, so none unpacks into the pair of
  names of the inner loop; the first token reached makes both loops raise.
\<close>

lemma upos_tag_does_not_unpack:
  assumes "t \<in> set ALL_UPOS"
  shows "\<exists>msg. unpack_pair t = Inl (ValueError msg)"
  using assms unfolding ALL_UPOS_def by auto

lemma timestep_loop_raises:
  assumes "t \<in> set ALL_UPOS"
  shows "\<exists>msg. timestep_loop self k (t # rest) rows = Inl (ValueError msg)"
  using upos_tag_does_not_unpack[OF assms] by auto

lemma example_loop_raises:
  assumes "\<exists>(tags, lem) \<in> set examples. tags \<noteq> []"
    and "\<forall>(tags, lem) \<in> set examples. \<forall>t \<in> set tags. t \<in> set ALL_UPOS"
    and "k + length examples \<le> length m"
  shows "\<exists>msg. example_loop self k examples m = Inl (ValueError msg)"
  using assms
proof (induction examples arbitrary: k m)
  case Nil
  then show ?case by simp
next
  case (Cons x xs)
  obtain tags lem where x: "x = (tags, lem)" by (cases x)
  from Cons.prems(3) have k: "k < length m" by simp
  show ?case
  proof (cases tags)
    case Nil
    with Cons.prems(1) x have 1: "\<exists>(tags, lem) \<in> set xs. tags \<noteq> []" by auto
    from Cons.prems(2) have 2: "\<forall>(tags, lem) \<in> set xs. \<forall>t \<in> set tags. t \<in> set ALL_UPOS" by simp
    from Cons.prems(3) have 3: "Suc k + length xs \<le> length (m[k := m ! k])" by simp
    from Cons.IH[OF 1 2 3] show ?thesis
      using x Nil k by simp
  next
    case (Cons t rest)
    with Cons.prems(2) x have "t \<in> set ALL_UPOS" by auto
    from timestep_loop_raises[OF this, of self 0 rest "m ! k"] show ?thesis
      using x Cons k by auto
  qed
qed

text \<open>
  Claim C5 says that \<open>get_upos_constraint_mask\<close> returns the mask of the batch, with the
  row of every real token set to the vector of the token's UPOS tag. The code does not
  return on a batch that has a token: the inner loop runs over
  \<open>enumerate(example_upos_tags)\<close> and unpacks each UPOS string into two names, where it
  was to unpack a pair of a tag and a lemma. So for every tagger object, every batch of
  UPOS tag lists over \<open>ALL_UPOS\<close> with as many lemma lists and with at least one token,
  the call raises \<open>ValueError\<close> and returns no mask.
\<close>

theorem C5_token_unpacking_raises:
  assumes "\<forall>tags \<in> set batch_upos_tags. \<forall>t \<in> set tags. t \<in> set ALL_UPOS"
    and "length batch_lemmas = length batch_upos_tags"
    and "\<exists>tags \<in> set batch_upos_tags. tags \<noteq> []"
  shows "\<exists>msg. get_upos_constraint_mask self batch_upos_tags batch_lemmas = Inl (ValueError msg)"
proof -
  from assms(3) obtain first others where b: "batch_upos_tags = first # others"
    by (cases batch_upos_tags) auto
  let ?examples = "zip batch_upos_tags batch_lemmas"
  let ?m = "replicate (length batch_upos_tags)
              (replicate (length (max_by_len first others))
                 (replicate (num_tags self) (1 * sentinel)))"
  have fst_zip: "map fst ?examples = batch_upos_tags"
    using assms(2) by simp
  have 1: "\<exists>(tags, lem) \<in> set ?examples. tags \<noteq> []"
  proof -
    from assms(3) obtain tags where "tags \<in> set (map fst ?examples)" "tags \<noteq> []"
      unfolding fst_zip by blast
    then show ?thesis by force
  qed
  have 2: "\<forall>(tags, lem) \<in> set ?examples. \<forall>t \<in> set tags. t \<in> set ALL_UPOS"
    using assms(1) by (auto dest: set_zip_leftD)
  have 3: "0 + length ?examples \<le> length ?m"
    by simp
  from example_loop_raises[OF 1 2 3, of self] show ?thesis
    unfolding get_upos_constraint_mask_def b Let_def by (simp add: b)
qed

text \<open>
  The batch of the one sentence with the one token \<open>NOUN\<close> (lemma \<open>dog\<close>), on a tagger
  constructed over the labels \<open>O\<close>, \<open>B\<close>, \<open>I_\<close> with UPOS constraints.
\<close>

theorem C5_token_unpacking_raises_witness:
  "''NOUN'' \<in> set ALL_UPOS
   \<and> length [[''dog'']] = length [[''NOUN'']]
   \<and> (\<exists>self. init [''O'', ''B'', ''I_''] True = Inr self
        \<and> get_upos_constraint_mask self [[''NOUN'']] [[''dog'']]
            = Inl (ValueError ''too many values to unpack (expected 2)''))"
proof -
  have u: "''NOUN'' \<in> set ALL_UPOS"
    by (simp add: ALL_UPOS_def)
  have "\<forall>l \<in> set [''O'', ''B'', ''I_'']. tag_of_label l \<in> set valid_tags"
    by (simp add: tag_of_label_def valid_tags_def)
  from init_returns[OF this] obtain self where self: "init [''O'', ''B'', ''I_''] True = Inr self" ..
  have 1: "\<forall>tags \<in> set [[''NOUN'']]. \<forall>t \<in> set tags. t \<in> set ALL_UPOS"
    using u by simp
  have 2: "length [[''dog'']] = length [[''NOUN'']]"
    by simp
  have 3: "\<exists>tags \<in> set [[''NOUN'']]. tags \<noteq> []"
    by simp
  from C5_token_unpacking_raises[OF 1 2 3, of self] obtain msg where
    r: "get_upos_constraint_mask self [[''NOUN'']] [[''dog'']] = Inl (ValueError msg)" ..
  have "get_upos_constraint_mask self [[''NOUN'']] [[''dog'']]
          = Inl (ValueError ''too many values to unpack (expected 2)'')"
    by (simp add: get_upos_constraint_mask_def)
  with r self have "\<exists>self. init [''O'', ''B'', ''I_''] True = Inr self
        \<and> get_upos_constraint_mask self [[''NOUN'']] [[''dog'']]
            = Inl (ValueError ''too many values to unpack (expected 2)'')"
    by blast
  with u 2 show ?thesis by (intro conjI)
qed

text \<open>
  Claim C6 says that a tagger constructed with \<open>use_upos_constraints = True\<close> replaces the
  masked logits before decoding. The code does not get that far: the condition of
  \<open>forward\<close> reads \<open>self.use_lemma_constraints\<close>, which the constructor never assigns, so
  every forward pass of such a tagger raises \<open>AttributeError\<close>, whatever the logits, the
  metadata and the two library functions are.
\<close>

theorem C6_forward_reads_missing_attribute:
  assumes "init vocab True = Inr self"
  shows "forward replace_masked_values viterbi_tags self logits token_mask metadata
           = Inl (AttributeError ''use_lemma_constraints'')"
  using init_attributes(1,2)[OF assms] by (simp add: forward_def)

theorem C6_forward_reads_missing_attribute_witness:
  "\<exists>self. init [''O'', ''B'', ''I_''] True = Inr self
     \<and> forward (\<lambda>logits m v. logits) (\<lambda>logits m. []) self [[[0, 0, 0]]] ()
          [\<lparr>tokens = [''dog''], upos_tags = [''NOUN''], token_lemmas = [''dog'']\<rparr>]
        = Inl (AttributeError ''use_lemma_constraints'')"
proof -
  have "\<forall>l \<in> set [''O'', ''B'', ''I_'']. tag_of_label l \<in> set valid_tags"
    by (simp add: tag_of_label_def valid_tags_def)
  from init_returns[OF this] obtain self where self: "init [''O'', ''B'', ''I_''] True = Inr self" ..
  from C6_forward_reads_missing_attribute[OF self] have "forward (\<lambda>logits m v. logits) (\<lambda>logits m. []) self [[[0, 0, 0]]] ()
          [\<lparr>tokens = [''dog''], upos_tags = [''NOUN''], token_lemmas = [''dog'']\<rparr>]
        = Inl (AttributeError ''use_lemma_constraints'')" .
  with self show ?thesis by (intro exI[of _ self] conjI)
qed

end
